theory Spec2Isabelle
  imports Main
begin

section \<open>Values, errors and user code\<close>

text \<open>
  The container of \<^verbatim>\<open>src/lib/Container.js\<close> stores and passes around arbitrary
  JavaScript values. Only their identity matters to the container, so a value is an
  opaque token: \<open>Obj n\<close> is a reference to the object with identity \<open>n\<close>, and
  \<open>Builtin n\<close> is the member \<open>n\<close> that every plain object inherits from
  \<^verbatim>\<open>Object.prototype\<close>.
\<close>

datatype val = Undefined | Str string | Num int | Obj nat | Builtin string

text \<open>
  \<open>UnknownIdentifier i\<close> is \<^verbatim>\<open>new Error(`Unknown identifier: ${identifier}`)\<close>;
  \<open>TypeError\<close> is what the runtime throws when a property of \<^verbatim>\<open>undefined\<close> is
  read or written; \<open>Thrown v\<close> is an exception of user code.
\<close>

datatype error = UnknownIdentifier string | TypeError | Thrown val

text \<open>
  A function or class handed to the container. The container reads its text
  (\<^verbatim>\<open>toString()\<close>), for a class the texts of the constructors above it on the
  prototype chain (nearest first, \<^verbatim>\<open>Function.prototype\<close> excluded), and calls it:
  \<open>run f args w\<close> is what \<^verbatim>\<open>func.apply(func, args)\<close>, or
  \<^verbatim>\<open>Reflect.construct(constructor, args)\<close> for a class, does in the user's world
  \<open>w\<close>. Until the section on user code that calls the container, user code is a function of
  its arguments and that world. \<open>fid\<close> is the identity of the function object.
\<close>

record 'w callable =
  fid :: nat
  source :: string
  ancestors :: "string list"
  run :: "val list \<Rightarrow> 'w \<Rightarrow> (error + val) \<times> 'w"

text \<open>
  The factory of a binding: the user's function (\<^verbatim>\<open>bindFactory\<close>), or the closure
  \<^verbatim>\<open>() => this.construct(constructor)\<close> that \<^verbatim>\<open>bindConstructor\<close> creates.
\<close>

datatype 'w func = Fn "'w callable" | Arrow "'w callable"

definition arrow_source :: string where
  "arrow_source = ''() => this.construct(constructor)''"

fun toString :: "'w func \<Rightarrow> string" where
  "toString (Fn f) = source f"
| "toString (Arrow k) = arrow_source"

section \<open>The signature extractor\<close>

text \<open>
  Strings are lists of characters with codes below 256. The line terminators of
  a regular expression are LF and CR (U+2028 and U+2029 are outside this character set).
\<close>

definition is_lt :: "char \<Rightarrow> bool" where
  "is_lt c = (c = CHR 0x0A \<or> c = CHR 0x0D)"

text \<open>The class \<^verbatim>\<open>\s\<close>: TAB, LF, VT, FF, CR, space and the no-break space.\<close>

definition is_space :: "char \<Rightarrow> bool" where
  "is_space c = (c = CHR 0x09 \<or> c = CHR 0x0A \<or> c = CHR 0x0B \<or> c = CHR 0x0C \<or>
     c = CHR 0x0D \<or> c = CHR 0x20 \<or> c = CHR 0xA0)"

text \<open>
  The five alternatives of \<^verbatim>\<open>captureGroups\<close> are sequences of these atoms:
  \<open>Bol\<close> is \<^verbatim>\<open>^\<close> under the flag \<^verbatim>\<open>m\<close>, \<open>Lit s\<close> a literal, \<open>Opt s\<close> the
  greedy optional literal \<^verbatim>\<open>(?:s)?\<close>, \<open>Lazy\<close> is \<^verbatim>\<open>.*?\<close> and \<open>Cap\<close> the
  capture group \<^verbatim>\<open>(.*?)\<close>, both under the flag \<^verbatim>\<open>s\<close>.
\<close>

datatype atom = Bol | Lit string | Opt string | Lazy | Cap

definition after :: "bool \<Rightarrow> string \<Rightarrow> bool" where
  "after b s = (if s = [] then b else is_lt (last s))"

text \<open>
  The backtracking matcher: \<open>rx p b cap cs\<close> matches the atoms \<open>p\<close> against the
  input \<open>cs\<close>, where \<open>b\<close> says that the position is the start of a line and \<open>cap\<close> is
  what the capture group holds so far. The result is the content of the capture group
  of the first match in backtracking order.
\<close>

fun rx :: "atom list \<Rightarrow> bool \<Rightarrow> string \<Rightarrow> string \<Rightarrow> string option" where
  "rx [] b cap cs = Some cap"
| "rx (Bol # r) b cap cs = (if b then rx r b cap cs else None)"
| "rx (Lit s # r) b cap cs =
     (if take (length s) cs = s then rx r (after b s) cap (drop (length s) cs) else None)"
| "rx (Opt s # r) b cap cs =
     (case (if take (length s) cs = s then rx r (after b s) cap (drop (length s) cs) else None) of
        Some g \<Rightarrow> Some g
      | None \<Rightarrow> rx r b cap cs)"
| "rx (Lazy # r) b cap cs =
     (case rx r b cap cs of
        Some g \<Rightarrow> Some g
      | None \<Rightarrow> (case cs of [] \<Rightarrow> None | x # xs \<Rightarrow> rx (Lazy # r) (is_lt x) cap xs))"
| "rx (Cap # r) b cap cs =
     (case rx r b cap cs of
        Some g \<Rightarrow> Some g
      | None \<Rightarrow> (case cs of [] \<Rightarrow> None | x # xs \<Rightarrow> rx (Cap # r) (is_lt x) (cap @ [x]) xs))"

text \<open>The alternatives are tried in order at one position.\<close>

fun first_alt :: "atom list list \<Rightarrow> bool \<Rightarrow> string \<Rightarrow> string option" where
  "first_alt [] b cs = None"
| "first_alt (p # ps) b cs =
     (case rx p b [] cs of Some g \<Rightarrow> Some g | None \<Rightarrow> first_alt ps b cs)"

text \<open>
  \<^verbatim>\<open>String.prototype.match\<close> and \<^verbatim>\<open>RegExp.prototype.test\<close> try the positions of
  the input from left to right. \<open>None\<close> is \<^verbatim>\<open>null\<close>: no match.
\<close>

fun rx_search :: "atom list list \<Rightarrow> bool \<Rightarrow> string \<Rightarrow> string option" where
  "rx_search ps b cs =
     (case first_alt ps b cs of
        Some g \<Rightarrow> Some g
      | None \<Rightarrow> (case cs of [] \<Rightarrow> None | x # xs \<Rightarrow> rx_search ps (is_lt x) xs))"

text \<open>\<^verbatim>\<open>^class .*?constructor\((.*?)\)\<close>\<close>

definition classConstructor :: "atom list" where
  "classConstructor = [Bol, Lit ''class '', Lazy, Lit ''constructor('', Cap, Lit '')'']"

text \<open>
  \<^verbatim>\<open>^.*?\((.*?)\)\<close>, \<^verbatim>\<open>^(?:async )?(.*?) ?=>\<close>, \<^verbatim>\<open>^\((.*?)\) ?=>\<close> and
  \<^verbatim>\<open>^function.*?\((.*?)\)\<close> follow the class constructor, in this order.
\<close>

definition captureGroups :: "atom list list" where
  "captureGroups =
     [classConstructor,
      [Bol, Lazy, Lit ''('', Cap, Lit '')''],
      [Bol, Opt ''async '', Cap, Opt '' '', Lit ''=>''],
      [Bol, Lit ''('', Cap, Lit '')'', Opt '' '', Lit ''=>''],
      [Bol, Lit ''function'', Lazy, Lit ''('', Cap, Lit '')'']]"

text \<open>
  \<^verbatim>\<open>.replace(/\/\/.*$/gm, "")\<close>: from two slashes to the end of the line, on every
  line.
\<close>

function removeLineComments :: "string \<Rightarrow> string" where
  "removeLineComments [] = []"
| "removeLineComments [c] = [c]"
| "removeLineComments (c # d # cs) =
     (if c = CHR ''/'' \<and> d = CHR ''/''
      then removeLineComments (dropWhile (\<lambda>x. \<not> is_lt x) cs)
      else c # removeLineComments (d # cs))"
  by pat_completeness auto
termination
  by (relation "measure length") (auto intro: le_SucI length_dropWhile_le simp: less_Suc_eq_le)

text \<open>
  \<^verbatim>\<open>.replace(/\/\*.*?\*\//gm, "")\<close>: without the flag \<^verbatim>\<open>s\<close> the dot stops at a
  line terminator, so only a block comment that closes on its own line is removed.
  \<open>block_end cs\<close> is the rest of the input behind the closing of the comment.
\<close>

fun block_end :: "string \<Rightarrow> string option" where
  "block_end (c # d # cs) =
     (if c = CHR ''*'' \<and> d = CHR ''/'' then Some cs
      else if is_lt c then None
      else block_end (d # cs))"
| "block_end cs = None"

lemma block_end_length: "block_end cs = Some r \<Longrightarrow> length r < length cs"
  by (induction cs arbitrary: r rule: block_end.induct) (auto split: if_splits)

function removeBlockComments :: "string \<Rightarrow> string" where
  "removeBlockComments [] = []"
| "removeBlockComments [c] = [c]"
| "removeBlockComments (c # d # cs) =
     (if c = CHR ''/'' \<and> d = CHR ''*''
      then (case block_end cs of
              Some r \<Rightarrow> removeBlockComments r
            | None \<Rightarrow> c # removeBlockComments (d # cs))
      else c # removeBlockComments (d # cs))"
  by pat_completeness auto
termination
  by (relation "measure length") (auto dest: block_end_length)

text \<open>\<^verbatim>\<open>.replace(/\s/gm, "")\<close>\<close>

definition removeWhitespace :: "string \<Rightarrow> string" where
  "removeWhitespace s = filter (\<lambda>c. \<not> is_space c) s"

text \<open>
  \<^verbatim>\<open>.replace(/^\(|\)$/, "")\<close> has no flag \<^verbatim>\<open>g\<close>: only the first match goes, an
  opening parenthesis at the start or else a closing one at the end.
\<close>

definition removeEnclosingParentheses :: "string \<Rightarrow> string" where
  "removeEnclosingParentheses s =
     (if s \<noteq> [] \<and> hd s = CHR ''('' then tl s
      else if s \<noteq> [] \<and> last s = CHR '')'' then butlast s
      else s)"

text \<open>
  \<^verbatim>\<open>.replace(/=.*?(?=,|$)/g, "")\<close>: from an equals sign up to the next comma or the
  end of the input. \<open>default_end cs\<close> is the rest of the input behind the default value.
\<close>

fun default_end :: "string \<Rightarrow> string option" where
  "default_end [] = Some []"
| "default_end (c # cs) =
     (if c = CHR '','' then Some (c # cs)
      else if is_lt c then None
      else default_end cs)"

lemma default_end_length: "default_end cs = Some r \<Longrightarrow> length r \<le> length cs"
  by (induction cs arbitrary: r) (auto split: if_splits)

function removeDefaultValues :: "string \<Rightarrow> string" where
  "removeDefaultValues [] = []"
| "removeDefaultValues (c # cs) =
     (if c = CHR ''=''
      then (case default_end cs of
              Some r \<Rightarrow> removeDefaultValues r
            | None \<Rightarrow> c # removeDefaultValues cs)
      else c # removeDefaultValues cs)"
  by pat_completeness auto
termination
  by (relation "measure length") (auto dest: default_end_length simp: less_Suc_eq_le)

text \<open>\<^verbatim>\<open>.split(",")\<close>: the empty string splits into one empty piece.\<close>

fun split_comma :: "string \<Rightarrow> string list" where
  "split_comma [] = [[]]"
| "split_comma (c # cs) =
     (if c = CHR '','' then [] # split_comma cs
      else (c # hd (split_comma cs)) # tl (split_comma cs))"

text \<open>
  \<^verbatim>\<open>extractParameterNames(target)\<close>, on the text \<^verbatim>\<open>target.toString()\<close>. Each
  alternative has one capture group, so the \<^verbatim>\<open>reduce\<close> over the groups yields the
  group of the alternative that matched.
\<close>

definition extractParameterNames :: "string \<Rightarrow> string list" where
  "extractParameterNames text =
     (case rx_search captureGroups True text of
        None \<Rightarrow> []
      | Some parameterString \<Rightarrow>
          split_comma (removeDefaultValues (removeEnclosingParentheses (removeWhitespace
            (removeBlockComments (removeLineComments parameterString))))))"

text \<open>
  \<^verbatim>\<open>firstExplicitConstructor(constructor)\<close> walks the prototype chain from the
  constructor itself and returns the first one whose text matches the class constructor
  pattern, or the constructor itself when none does. The caller only reads the text
  of the result.
\<close>

definition hasExplicitConstructor :: "string \<Rightarrow> bool" where
  "hasExplicitConstructor text = (rx_search [classConstructor] True text \<noteq> None)"

definition firstExplicitConstructor :: "'w callable \<Rightarrow> string" where
  "firstExplicitConstructor c =
     (case find hasExplicitConstructor (source c # ancestors c) of
        Some text \<Rightarrow> text
      | None \<Rightarrow> source c)"

section \<open>The container\<close>

text \<open>
  \<^verbatim>\<open>this.bindings\<close>, \<^verbatim>\<open>this.instances\<close> and \<^verbatim>\<open>this.aliases\<close> are the three
  maps of the class. \<open>world\<close> is the state of the user's code and \<open>calls\<close> lists the
  functions and constructors that the container has called so far, oldest first.
\<close>

record 'w binding =
  factory :: "'w func"
  singleton :: bool

record 'w container =
  bindings :: "string \<rightharpoonup> 'w binding"
  instances :: "string \<rightharpoonup> val"
  aliases :: "string \<rightharpoonup> string"
  world :: 'w
  calls :: "nat list"

definition new_container :: "'w \<Rightarrow> 'w container" where
  "new_container w =
     \<lparr>bindings = Map.empty, instances = Map.empty, aliases = Map.empty, world = w, calls = []\<rparr>"

definition has :: "'w container \<Rightarrow> string \<Rightarrow> bool" where
  "has s identifier =
     (bindings s identifier \<noteq> None \<or> instances s identifier \<noteq> None \<or>
      aliases s identifier \<noteq> None)"

text \<open>
  \<^verbatim>\<open>this.aliases.get(identifier) || identifier\<close>: the empty string is the one string
  that is falsy.
\<close>

definition resolveIdentifier :: "'w container \<Rightarrow> string \<Rightarrow> string" where
  "resolveIdentifier s identifier =
     (case aliases s identifier of
        None \<Rightarrow> identifier
      | Some target \<Rightarrow> if target = [] then identifier else target)"

definition createSingletonFromBinding :: "string \<Rightarrow> val \<Rightarrow> 'w container \<Rightarrow> 'w container" where
  "createSingletonFromBinding identifier v s =
     s\<lparr>instances := (instances s)(identifier \<mapsto> v),
       bindings := (bindings s)(identifier := None)\<rparr>"

text \<open>
  The named parameters are a plain object: \<open>p\<close> holds its own properties, and the
  operator \<^verbatim>\<open>in\<close> also sees what the object inherits from \<^verbatim>\<open>Object.prototype\<close>.
\<close>

type_synonym params = "string \<rightharpoonup> val"

definition object_prototype :: "string list" where
  "object_prototype =
     [''constructor'', ''__defineGetter__'', ''__defineSetter__'', ''hasOwnProperty'',
      ''__lookupGetter__'', ''__lookupSetter__'', ''isPrototypeOf'', ''propertyIsEnumerable'',
      ''toString'', ''valueOf'', ''__proto__'', ''toLocaleString'']"

definition js_in :: "string \<Rightarrow> params \<Rightarrow> bool" where
  "js_in name p = (p name \<noteq> None \<or> name \<in> set object_prototype)"

definition js_member :: "params \<Rightarrow> string \<Rightarrow> val" where
  "js_member p name =
     (case p name of
        Some v \<Rightarrow> v
      | None \<Rightarrow> if name \<in> set object_prototype then Builtin name else Undefined)"

text \<open>
  A call of the container ends in a value or in an exception, with the state it left
  behind; \<open>None\<close> is a call that does not return. \<^verbatim>\<open>get\<close>, \<^verbatim>\<open>invoke\<close>,
  \<^verbatim>\<open>construct\<close> and \<^verbatim>\<open>resolveParameter\<close> call each other, so each takes the
  \<^verbatim>\<open>get\<close> it calls as its first argument.
\<close>

type_synonym ('a, 'w) outcome = "((error + 'a) \<times> 'w container) option"

type_synonym 'w getter = "string \<Rightarrow> 'w container \<Rightarrow> (val, 'w) outcome"

definition resolveParameter ::
  "'w getter \<Rightarrow> string \<Rightarrow> params \<Rightarrow> 'w container \<Rightarrow> (val, 'w) outcome" where
  "resolveParameter g name p s =
     (if js_in name p then Some (Inr (js_member p name), s)
      else if has s name then g name s
      else Some (Inr Undefined, s))"

text \<open>\<^verbatim>\<open>parameterNames.map(...)\<close>: from left to right, an exception ends it.\<close>

fun resolveParameters ::
  "'w getter \<Rightarrow> string list \<Rightarrow> params \<Rightarrow> 'w container \<Rightarrow> (val list, 'w) outcome" where
  "resolveParameters g [] p s = Some (Inr [], s)"
| "resolveParameters g (name # names) p s =
     (case resolveParameter g name p s of
        None \<Rightarrow> None
      | Some (Inl e, s') \<Rightarrow> Some (Inl e, s')
      | Some (Inr v, s') \<Rightarrow>
          (case resolveParameters g names p s' of
             None \<Rightarrow> None
           | Some (Inl e, s'') \<Rightarrow> Some (Inl e, s'')
           | Some (Inr vs, s'') \<Rightarrow> Some (Inr (v # vs), s'')))"

text \<open>
  \<^verbatim>\<open>func.apply(func, args)\<close> and \<^verbatim>\<open>Reflect.construct(constructor, args)\<close>: the
  user's code runs in the user's world, and the call is noted.
\<close>

definition call :: "'w callable \<Rightarrow> val list \<Rightarrow> 'w container \<Rightarrow> (error + val) \<times> 'w container" where
  "call f args s =
     (fst (run f args (world s)),
      s\<lparr>world := snd (run f args (world s)), calls := calls s @ [fid f]\<rparr>)"

definition construct ::
  "'w getter \<Rightarrow> 'w callable \<Rightarrow> params \<Rightarrow> 'w container \<Rightarrow> (val, 'w) outcome" where
  "construct g constructor p s =
     (case resolveParameters g (extractParameterNames (firstExplicitConstructor constructor)) p s of
        None \<Rightarrow> None
      | Some (Inl e, s') \<Rightarrow> Some (Inl e, s')
      | Some (Inr args, s') \<Rightarrow> Some (call constructor args s'))"

text \<open>
  \<^verbatim>\<open>invoke(func, parameters, signature)\<close>; the signature \<open>None\<close> is \<^verbatim>\<open>null\<close>.
  Applying the closure of \<^verbatim>\<open>bindConstructor\<close> runs its body,
  \<^verbatim>\<open>this.construct(constructor)\<close>, whatever the arguments.
\<close>

definition invoke ::
  "'w getter \<Rightarrow> 'w func \<Rightarrow> params \<Rightarrow> 'w func option \<Rightarrow> 'w container \<Rightarrow> (val, 'w) outcome" where
  "invoke g func p signature s =
     (case resolveParameters g
             (extractParameterNames (toString (case signature of None \<Rightarrow> func | Some f \<Rightarrow> f))) p s of
        None \<Rightarrow> None
      | Some (Inl e, s') \<Rightarrow> Some (Inl e, s')
      | Some (Inr args, s') \<Rightarrow>
          (case func of
             Fn f \<Rightarrow> Some (call f args s')
           | Arrow constructor \<Rightarrow> construct g constructor Map.empty s'))"

definition get_body :: "'w getter \<Rightarrow> string \<Rightarrow> 'w container \<Rightarrow> (val, 'w) outcome" where
  "get_body g identifier s =
     (if \<not> has s identifier then Some (Inl (UnknownIdentifier identifier), s)
      else
        (case instances s (resolveIdentifier s identifier) of
           Some v \<Rightarrow> Some (Inr v, s)
         | None \<Rightarrow>
             (case bindings s (resolveIdentifier s identifier) of
                None \<Rightarrow> Some (Inl TypeError, s)
              | Some b \<Rightarrow>
                  (case invoke g (factory b) Map.empty None s of
                     None \<Rightarrow> None
                   | Some (Inl e, s') \<Rightarrow> Some (Inl e, s')
                   | Some (Inr v, s') \<Rightarrow>
                       Some (Inr v,
                         if singleton b
                         then createSingletonFromBinding (resolveIdentifier s identifier) v s'
                         else s')))))"

text \<open>
  \<^verbatim>\<open>get(identifier)\<close> with a bound on the depth of the calls of \<^verbatim>\<open>get\<close> inside
  \<^verbatim>\<open>get\<close>. A binding whose parameters depend on itself recurses for ever in the
  source; here it is \<open>None\<close> at every depth.
\<close>

primrec get :: "nat \<Rightarrow> 'w getter" where
  "get 0 = get_body (\<lambda>identifier s. None)"
| "get (Suc n) = get_body (get n)"

definition bindInstance :: "string \<Rightarrow> val \<Rightarrow> 'w container \<Rightarrow> 'w container" where
  "bindInstance identifier v s = s\<lparr>instances := (instances s)(identifier \<mapsto> v)\<rparr>"

definition bindConstructor :: "string \<Rightarrow> 'w callable \<Rightarrow> bool \<Rightarrow> 'w container \<Rightarrow> 'w container" where
  "bindConstructor identifier constructor sing s =
     s\<lparr>bindings := (bindings s)(identifier \<mapsto> \<lparr>factory = Arrow constructor, singleton = sing\<rparr>)\<rparr>"

definition bindFactory :: "string \<Rightarrow> 'w callable \<Rightarrow> bool \<Rightarrow> 'w container \<Rightarrow> 'w container" where
  "bindFactory identifier f sing s =
     s\<lparr>bindings := (bindings s)(identifier \<mapsto> \<lparr>factory = Fn f, singleton = sing\<rparr>)\<rparr>"

definition makeSingleton :: "string \<Rightarrow> 'w container \<Rightarrow> (error + unit) \<times> 'w container" where
  "makeSingleton identifier s =
     (if \<not> has s identifier then (Inl (UnknownIdentifier identifier), s)
      else if instances s (resolveIdentifier s identifier) \<noteq> None then (Inr (), s)
      else
        (case bindings s (resolveIdentifier s identifier) of
           None \<Rightarrow> (Inl TypeError, s)
         | Some b \<Rightarrow>
             (Inr (),
              s\<lparr>bindings := (bindings s)(resolveIdentifier s identifier \<mapsto> b\<lparr>singleton := True\<rparr>)\<rparr>)))"

text \<open>
  The loop of \<^verbatim>\<open>alias\<close>: \<^verbatim>\<open>while (this.aliases.has(identifier))\<close>. It runs for
  ever on a cycle of aliases, which is the result \<open>None\<close>.
\<close>

partial_function (option) alias_walk :: "(string \<rightharpoonup> string) \<Rightarrow> string \<Rightarrow> string option" where
  "alias_walk m identifier =
     (case m identifier of
        None \<Rightarrow> Some identifier
      | Some target \<Rightarrow> alias_walk m target)"

definition alias_fn :: "string \<Rightarrow> string \<Rightarrow> 'w container \<Rightarrow> 'w container option" where
  "alias_fn identifier alias_name s =
     (case alias_walk (aliases s) identifier of
        None \<Rightarrow> None
      | Some target \<Rightarrow> Some (s\<lparr>aliases := (aliases s)(alias_name \<mapsto> target)\<rparr>))"

lemma alias_walk_stop: "m i = None \<Longrightarrow> alias_walk m i = Some i"
  by (subst alias_walk.simps) simp

lemma alias_walk_step: "m i = Some t \<Longrightarrow> alias_walk m i = alias_walk m t"
  by (subst alias_walk.simps) simp

section \<open>Sequences of calls\<close>

text \<open>
  A program that uses the container makes the public calls one after the other, and
  goes on after a call that threw (the state is then what the call left behind).
\<close>

datatype 'w op =
    BindInstance string val
  | BindConstructor string "'w callable" bool
  | BindFactory string "'w callable" bool
  | MakeSingleton string
  | Alias string string
  | Get string
  | Construct "'w callable" params
  | Invoke "'w callable" params "'w callable option"

fun after_call :: "('a, 'w) outcome \<Rightarrow> 'w container option" where
  "after_call None = None"
| "after_call (Some (r, s)) = Some s"

fun exec :: "nat \<Rightarrow> 'w op \<Rightarrow> 'w container \<Rightarrow> 'w container option" where
  "exec n (BindInstance i v) s = Some (bindInstance i v s)"
| "exec n (BindConstructor i c sing) s = Some (bindConstructor i c sing s)"
| "exec n (BindFactory i f sing) s = Some (bindFactory i f sing s)"
| "exec n (MakeSingleton i) s = Some (snd (makeSingleton i s))"
| "exec n (Alias i a) s = alias_fn i a s"
| "exec n (Get i) s = after_call (get n i s)"
| "exec n (Construct c p) s = after_call (construct (get n) c p s)"
| "exec n (Invoke f p sig) s = after_call (invoke (get n) (Fn f) p (map_option Fn sig) s)"

fun perform :: "nat \<Rightarrow> 'w op list \<Rightarrow> 'w container \<Rightarrow> 'w container option" where
  "perform n [] s = Some s"
| "perform n (x # xs) s = (case exec n x s of None \<Rightarrow> None | Some s' \<Rightarrow> perform n xs s')"

section \<open>What a call of \<^verbatim>\<open>get\<close> can change\<close>













section \<open>Unregistered identifiers\<close>

text \<open>The calls that register the identifier \<open>i\<close> as a key of one of the maps.\<close>

fun registers :: "string \<Rightarrow> 'w op \<Rightarrow> bool" where
  "registers i (BindInstance k v) = (k = i)"
| "registers i (BindConstructor k c sing) = (k = i)"
| "registers i (BindFactory k f sing) = (k = i)"
| "registers i (Alias k a) = (a = i)"
| "registers i x = False"



lemma after_call_Some: "after_call x = Some s' \<Longrightarrow> \<exists>r. x = Some (r, s')"
  by (cases x) auto









section \<open>An alias without a target\<close>

text \<open>
  Claim C10, amended. When the alias \<open>a\<close> points at a target \<open>t\<close> that is not
  the empty string and is a key of neither the bindings nor the instances, \<^verbatim>\<open>has(a)\<close>
  is true and \<^verbatim>\<open>get(a)\<close> throws a type error (reading the factory of an undefined
  binding), which is not the unknown identifier error; the container is unchanged.
\<close>

theorem dangling_alias:
  assumes "aliases s a = Some t" and "t \<noteq> []"
    and "bindings s t = None" and "instances s t = None"
  shows "has s a \<and> get n a s = Some (Inl TypeError, s)"
proof -
  from assms(1) have h: "has s a"
    by (simp add: has_def)
  from assms(1,2) have r: "resolveIdentifier s a = t"
    by (simp add: resolveIdentifier_def)
  have "get_body g a s = Some (Inl TypeError, s)" for g
    using h r assms(3,4) by (simp add: get_body_def)
  then have "get n a s = Some (Inl TypeError, s)"
    by (cases n) simp_all
  with h show ?thesis by simp
qed

text \<open>
  As the claim states it, C10 fails for the empty string as target: \<^verbatim>\<open>alias("", "a")\<close>
  followed by \<^verbatim>\<open>bindInstance("a", "v")\<close> leaves an alias whose target is unknown, and
  \<^verbatim>\<open>get("a")\<close> returns the instance under \<open>a\<close> itself.
\<close>

definition empty_target :: "unit container" where
  "empty_target =
     \<lparr>bindings = Map.empty, instances = [''a'' \<mapsto> Str ''v''], aliases = [''a'' \<mapsto> ''''],
      world = (), calls = []\<rparr>"

theorem dangling_alias_counterexample:
  "perform 0 [Alias '''' ''a'', BindInstance ''a'' (Str ''v'')] (new_container ()) =
     Some empty_target \<and>
   aliases empty_target ''a'' = Some '''' \<and>
   bindings empty_target '''' = None \<and> instances empty_target '''' = None \<and>
   get 0 ''a'' empty_target = Some (Inr (Str ''v''), empty_target)"
  by (simp add: empty_target_def new_container_def bindInstance_def alias_fn_def
      alias_walk_stop get_body_def has_def resolveIdentifier_def)

definition dangling :: "unit container" where
  "dangling =
     \<lparr>bindings = Map.empty, instances = Map.empty, aliases = [''a'' \<mapsto> ''t''],
      world = (), calls = []\<rparr>"

theorem dangling_alias_witness:
  "has dangling ''a'' \<and> get 3 ''a'' dangling = Some (Inl TypeError, dangling)"
proof -
  have "aliases dangling ''a'' = Some ''t''" "''t'' \<noteq> []"
    "bindings dangling ''t'' = None" "instances dangling ''t'' = None"
    by (simp_all add: dangling_def)
  then show ?thesis
    by (rule dangling_alias)
qed

section \<open>Examples of user code\<close>

text \<open>
  A class without a constructor whose instances are new objects, the factory
  \<^verbatim>\<open>() => ++value\<close> of the tests, and a factory that throws. The closure of
  \<^verbatim>\<open>bindConstructor\<close> and every function without parameters have one parameter name,
  the empty string, because \<^verbatim>\<open>"".split(",")\<close> is \<^verbatim>\<open>[""]\<close>.
\<close>

lemma names_arrow: "extractParameterNames arrow_source = ['''']"
  by code_simp

lemma names_no_parameters: "extractParameterNames ''() => ++value'' = ['''']"
  by code_simp

lemma names_throwing: "extractParameterNames ''() => { throw 1 }'' = ['''']"
  by code_simp

lemma names_plain_class: "extractParameterNames ''class A {}'' = []"
  by code_simp

lemma plain_class_no_constructor: "hasExplicitConstructor ''class A {}'' = False"
  by code_simp

lemma empty_name_not_inherited: "js_in '''' Map.empty = False"
  by (simp add: js_in_def object_prototype_def)




lemmas container_simps =
  new_container_def bindInstance_def bindConstructor_def bindFactory_def alias_fn_def
  alias_walk_stop get_body_def has_def resolveIdentifier_def invoke_def construct_def call_def
  resolveParameter_def createSingletonFromBinding_def firstExplicitConstructor_def
  names_arrow names_no_parameters names_throwing names_plain_class plain_class_no_constructor
  empty_name_not_inherited

section \<open>Aliases of aliases\<close>

lemma alias_walk_not_key:
  assumes "alias_walk m i = Some t"
  shows "m t = None"
  using assms
  by (rule alias_walk.raw_induct [where P = "\<lambda>m i t. m t = None", rotated])
    (auto split: option.splits)

lemma alias_walk_loop:
  assumes "m i = Some i"
  shows "alias_walk m i = None"
proof (rule ccontr)
  assume "alias_walk m i \<noteq> None"
  then obtain t where "alias_walk m i = Some t" by auto
  then have "m i \<noteq> Some i"
    by (rule alias_walk.raw_induct [where P = "\<lambda>m i t. m i \<noteq> Some i", rotated])
      (auto split: option.splits)
  with assms show False by simp
qed

lemma get_same_target:
  assumes "has s x" and "has s y" and "resolveIdentifier s x = resolveIdentifier s y"
  shows "get n x s = get n y s"
proof -
  have "get_body g x s = get_body g y s" for g
    unfolding get_body_def assms(3) using assms(1,2) by simp
  then show ?thesis
    by (cases n) simp_all
qed

lemma resolveIdentifier_walk:
  assumes "aliases s (resolveIdentifier s a) = None"
  shows "alias_walk (aliases s) a = Some (resolveIdentifier s a)"
proof (cases "aliases s a")
  case None
  then show ?thesis
    by (simp add: resolveIdentifier_def alias_walk_stop)
next
  case (Some t)
  with assms have "t \<noteq> []"
    by (auto simp: resolveIdentifier_def)
  with Some have r: "resolveIdentifier s a = t"
    by (simp add: resolveIdentifier_def)
  with assms have "alias_walk (aliases s) t = Some t"
    by (simp add: alias_walk_stop)
  with Some r show ?thesis
    by (simp add: alias_walk_step)
qed

lemma resolveIdentifier_alias:
  "t \<noteq> [] \<Longrightarrow> resolveIdentifier (s\<lparr>aliases := (aliases s)(k \<mapsto> t)\<rparr>) k = t"
  by (simp add: resolveIdentifier_def)

lemma resolveIdentifier_other:
  "x \<noteq> k \<Longrightarrow>
   resolveIdentifier (s\<lparr>aliases := (aliases s)(k \<mapsto> t)\<rparr>) x = resolveIdentifier s x"
  by (simp add: resolveIdentifier_def)

text \<open>
  Claim C5, amended. When the identifier that \<^verbatim>\<open>get(a)\<close> resolves to (\<open>a\<close>
  itself, or the target of the alias \<open>a\<close>) is not an alias, is not \<open>b\<close> and is not
  the empty string, then \<^verbatim>\<open>alias(a, b)\<close> and \<^verbatim>\<open>alias(b, c)\<close> both return,
  \<^verbatim>\<open>has(c)\<close> is true afterwards, \<^verbatim>\<open>get(c)\<close> and \<^verbatim>\<open>get(a)\<close> resolve to that same
  identifier, and \<^verbatim>\<open>get(c)\<close> does whatever \<^verbatim>\<open>get(a)\<close> does if \<open>a\<close> is known.
\<close>

theorem alias_of_alias:
  assumes "aliases s (resolveIdentifier s a) = None"
    and "resolveIdentifier s a \<noteq> b" and "resolveIdentifier s a \<noteq> []"
  shows "\<exists>s1 s2. alias_fn a b s = Some s1 \<and> alias_fn b c s1 = Some s2 \<and> has s2 c \<and>
    resolveIdentifier s2 c = resolveIdentifier s a \<and>
    resolveIdentifier s2 a = resolveIdentifier s a \<and>
    (has s2 a \<longrightarrow> (\<forall>n. get n c s2 = get n a s2))"
proof -
  define r where "r = resolveIdentifier s a"
  define s1 where "s1 = s\<lparr>aliases := (aliases s)(b \<mapsto> r)\<rparr>"
  define s2 where "s2 = s1\<lparr>aliases := (aliases s1)(c \<mapsto> r)\<rparr>"
  from assms have r: "aliases s r = None" "r \<noteq> b" "r \<noteq> []"
    by (simp_all add: r_def)
  have "alias_walk (aliases s) a = Some r"
    unfolding r_def by (rule resolveIdentifier_walk [OF assms(1)])
  then have a1: "alias_fn a b s = Some s1"
    by (simp add: alias_fn_def s1_def)
  have "alias_walk (aliases s1) b = alias_walk (aliases s1) r"
    by (rule alias_walk_step) (simp add: s1_def)
  also have "\<dots> = Some r"
    using r(1,2) by (intro alias_walk_stop) (simp add: s1_def)
  finally have a2: "alias_fn b c s1 = Some s2"
    by (simp add: alias_fn_def s2_def)
  have h: "has s2 c"
    by (simp add: has_def s2_def)
  have rc: "resolveIdentifier s2 c = r"
    unfolding s2_def by (rule resolveIdentifier_alias [OF r(3)])
  have ra: "resolveIdentifier s2 a = r"
  proof (cases "a = c")
    case True
    with rc show ?thesis by simp
  next
    case False
    then have 1: "resolveIdentifier s2 a = resolveIdentifier s1 a"
      unfolding s2_def by (rule resolveIdentifier_other)
    show ?thesis
    proof (cases "a = b")
      case True
      have "resolveIdentifier s1 b = r"
        unfolding s1_def by (rule resolveIdentifier_alias [OF r(3)])
      with 1 True show ?thesis by simp
    next
      case False
      then have "resolveIdentifier s1 a = resolveIdentifier s a"
        unfolding s1_def by (rule resolveIdentifier_other)
      with 1 show ?thesis by (simp add: r_def)
    qed
  qed
  have "has s2 a \<longrightarrow> (\<forall>n. get n c s2 = get n a s2)"
    using h rc ra get_same_target [of s2 c a] by simp
  with a1 a2 h rc ra show ?thesis
    unfolding r_def by blast
qed

text \<open>
  As the claim states it, C5 fails on a container whose aliases form a chain:
  \<^verbatim>\<open>alias("x", "a")\<close> and then \<^verbatim>\<open>alias("y", "x")\<close> leave \<open>a\<close> pointing at \<open>x\<close>
  and \<open>x\<close> at \<open>y\<close>. The loop of \<^verbatim>\<open>alias\<close> follows the chain to \<open>y\<close>, but
  \<^verbatim>\<open>get\<close> takes one step only. It also fails for \<open>a = b\<close>: \<^verbatim>\<open>alias("x", "x")\<close>
  makes \<open>x\<close> an alias of itself, and the loop of \<^verbatim>\<open>alias("x", "y")\<close> does not end.
\<close>

definition chained :: "unit container" where
  "chained =
     \<lparr>bindings = Map.empty, instances = [''y'' \<mapsto> Num 1],
      aliases = [''a'' \<mapsto> ''x'', ''x'' \<mapsto> ''y'', ''b'' \<mapsto> ''y'', ''c'' \<mapsto> ''y''],
      world = (), calls = []\<rparr>"

definition self_alias :: "unit container" where
  "self_alias =
     \<lparr>bindings = Map.empty, instances = Map.empty, aliases = [''x'' \<mapsto> ''x''],
      world = (), calls = []\<rparr>"

theorem alias_of_alias_counterexample:
  "perform 0 [BindInstance ''y'' (Num 1), Alias ''x'' ''a'', Alias ''y'' ''x'',
      Alias ''a'' ''b'', Alias ''b'' ''c''] (new_container ()) = Some chained \<and>
   resolveIdentifier chained ''c'' = ''y'' \<and> resolveIdentifier chained ''a'' = ''x'' \<and>
   get 0 ''c'' chained = Some (Inr (Num 1), chained) \<and>
   get 0 ''a'' chained = Some (Inl TypeError, chained) \<and>
   alias_fn ''x'' ''x'' (new_container ()) = Some self_alias \<and>
   alias_fn ''x'' ''y'' self_alias = None"
proof -
  have "perform 0 [BindInstance ''y'' (Num 1), Alias ''x'' ''a'', Alias ''y'' ''x'',
      Alias ''a'' ''b'', Alias ''b'' ''c''] (new_container ()) = Some chained"
    by (simp add: chained_def new_container_def bindInstance_def alias_fn_def alias_walk.simps)
  moreover have "resolveIdentifier chained ''c'' = ''y''"
    and "resolveIdentifier chained ''a'' = ''x''"
    and "get 0 ''c'' chained = Some (Inr (Num 1), chained)"
    and "get 0 ''a'' chained = Some (Inl TypeError, chained)"
    by (simp_all add: chained_def get_body_def has_def resolveIdentifier_def)
  moreover have "alias_fn ''x'' ''x'' (new_container ()) = Some self_alias"
    by (simp add: self_alias_def new_container_def alias_fn_def alias_walk_stop)
  moreover have "alias_walk (aliases self_alias) ''x'' = None"
    by (rule alias_walk_loop) (simp add: self_alias_def)
  then have "alias_fn ''x'' ''y'' self_alias = None"
    by (simp add: alias_fn_def)
  ultimately show ?thesis
    by simp
qed

theorem alias_of_alias_witness:
  "\<exists>s1 s2. alias_fn ''a'' ''b'' (bindInstance ''a'' (Num 1) (new_container ())) = Some s1 \<and>
    alias_fn ''b'' ''c'' s1 = Some s2 \<and> has s2 ''c'' \<and>
    resolveIdentifier s2 ''c'' =
      resolveIdentifier (bindInstance ''a'' (Num 1) (new_container ())) ''a'' \<and>
    resolveIdentifier s2 ''a'' =
      resolveIdentifier (bindInstance ''a'' (Num 1) (new_container ())) ''a'' \<and>
    (has s2 ''a'' \<longrightarrow> (\<forall>n. get n ''c'' s2 = get n ''a'' s2))"
proof -
  let ?s = "bindInstance ''a'' (Num 1) (new_container ())"
  have r: "resolveIdentifier ?s ''a'' = ''a''"
    by (simp add: resolveIdentifier_def bindInstance_def new_container_def)
  have 1: "aliases ?s (resolveIdentifier ?s ''a'') = None"
    unfolding r by (simp add: bindInstance_def new_container_def)
  have 2: "resolveIdentifier ?s ''a'' \<noteq> ''b''" and 3: "resolveIdentifier ?s ''a'' \<noteq> []"
    unfolding r by simp_all
  show ?thesis
    by (rule alias_of_alias [OF 1 2 3])
qed

section \<open>The aliases as a flat map\<close>












section \<open>The precedence of the parameter resolver\<close>

text \<open>
  An own property of the named parameters wins, also when its value is
  \<^verbatim>\<open>undefined\<close>. For a name that \<^verbatim>\<open>Object.prototype\<close> does not have, the resolver
  then asks the container and else answers \<^verbatim>\<open>undefined\<close>.
\<close>

lemma resolveParameter_own:
  "p name = Some v \<Longrightarrow> resolveParameter g name p s = Some (Inr v, s)"
  by (simp add: resolveParameter_def js_in_def js_member_def)

lemma resolveParameter_precedence:
  "name \<notin> set object_prototype \<Longrightarrow>
   resolveParameter g name p s =
     (case p name of
        Some v \<Rightarrow> Some (Inr v, s)
      | None \<Rightarrow> if has s name then g name s else Some (Inr Undefined, s))"
  by (simp add: resolveParameter_def js_in_def js_member_def split: option.splits)

text \<open>
  Claim C3 at the name \<open>toString\<close>, with no named parameters and an instance bound
  under that name: the claim's answer is the bound instance, the value of
  \<^verbatim>\<open>get("toString")\<close>. The test \<^verbatim>\<open>name in parameters\<close> is true for a name that the
  object inherits, so the resolver answers the inherited member instead.
\<close>

definition to_string_bound :: "unit container" where
  "to_string_bound =
     \<lparr>bindings = Map.empty, instances = [''toString'' \<mapsto> Str ''V''], aliases = Map.empty,
      world = (), calls = []\<rparr>"

definition echo :: "unit callable" where
  "echo =
     \<lparr>fid = 4, source = ''(toString) => toString'', ancestors = [],
      run = (\<lambda>args w. (Inr (hd args), w))\<rparr>"

lemma names_echo: "extractParameterNames ''(toString) => toString'' = [''toString'']"
  by code_simp

text \<open>
  Claim C3 fails on the code at this input: \<open>toString\<close> is not a key of the named
  parameters and the container has it, yet the resolved value is not what \<^verbatim>\<open>get\<close>
  returns; \<^verbatim>\<open>invoke\<close> passes the inherited member on to the function.
\<close>

theorem inherited_parameter:
  "bindInstance ''toString'' (Str ''V'') (new_container ()) = to_string_bound \<and>
   Map.empty ''toString'' = (None :: val option) \<and>
   get 0 ''toString'' to_string_bound = Some (Inr (Str ''V''), to_string_bound) \<and>
   resolveParameter (get 0) ''toString'' Map.empty to_string_bound =
     Some (Inr (Builtin ''toString''), to_string_bound) \<and>
   invoke (get 0) (Fn echo) Map.empty None to_string_bound =
     Some (Inr (Builtin ''toString''), to_string_bound\<lparr>calls := [4]\<rparr>)"
  by (simp add: to_string_bound_def echo_def names_echo container_simps js_in_def js_member_def
      object_prototype_def)

section \<open>The constructor that gives the parameter names\<close>

lemma find_append:
  "\<forall>u \<in> set pre. \<not> P u \<Longrightarrow> find P (pre @ rest) = find P rest"
  by (induction pre) auto

text \<open>
  The walk along the prototype chain: when the texts before some text of the chain do
  not match the class constructor pattern and that text does, it is the one that
  \<^verbatim>\<open>firstExplicitConstructor\<close> returns, and \<^verbatim>\<open>construct\<close> resolves the
  parameter names extracted from it.
\<close>

lemma first_explicit_constructor:
  assumes "source c # ancestors c = pre @ text # post"
    and "\<forall>u \<in> set pre. \<not> hasExplicitConstructor u"
    and "hasExplicitConstructor text"
  shows "firstExplicitConstructor c = text"
proof -
  have "find hasExplicitConstructor (source c # ancestors c) =
      find hasExplicitConstructor (text # post)"
    unfolding assms(1) by (rule find_append [OF assms(2)])
  with assms(3) show ?thesis
    by (simp add: firstExplicitConstructor_def)
qed

definition derived_class :: "unit callable" where
  "derived_class =
     \<lparr>fid = 5, source = ''class B extends A { m(x) { return x } }'',
      ancestors = [''class A { constructor(a, b) { this.a = a } }''],
      run = (\<lambda>args w. (Inr (Obj 0), w))\<rparr>"

lemma derived_texts:
  "hasExplicitConstructor ''class B extends A { m(x) { return x } }'' = False"
  "hasExplicitConstructor ''class A { constructor(a, b) { this.a = a } }'' = True"
  "extractParameterNames ''class A { constructor(a, b) { this.a = a } }'' = [''a'', ''b'']"
  by code_simp+

lemma derived_class_parameters:
  "extractParameterNames (firstExplicitConstructor derived_class) = [''a'', ''b'']"
  by (simp add: firstExplicitConstructor_def derived_class_def derived_texts)

text \<open>
  A class without a constructor whose chain has none either, with one method. In the
  second container \<open>a\<close> is an alias without a target.
\<close>

definition method_class :: "unit callable" where
  "method_class =
     \<lparr>fid = 8, source = ''class A { m(a) {} }'', ancestors = [],
      run = (\<lambda>args w. (Inr (Obj 0), w))\<rparr>"

lemma method_class_texts:
  "hasExplicitConstructor ''class A { m(a) {} }'' = False"
  "extractParameterNames ''class A { m(a) {} }'' = [''a'']"
  by code_simp+

text \<open>
  Claim C6 fails on the code at this input. No constructor on the chain of the class is
  explicit, so the claim's parameter list is empty; the code reads the parameter of the
  method \<open>m\<close> as a parameter of the constructor. It constructs the class with one
  argument, and where \<open>a\<close> is an alias without a target the construction throws.
\<close>

theorem method_parameters_constructed:
  "hasExplicitConstructor (source method_class) = False \<and>
   ancestors method_class = [] \<and>
   extractParameterNames (firstExplicitConstructor method_class) = [''a''] \<and>
   construct (get 0) method_class Map.empty (new_container ()) =
     Some (call method_class [Undefined] (new_container ())) \<and>
   construct (get 0) method_class Map.empty dangling = Some (Inl TypeError, dangling)"
  by (simp add: method_class_def method_class_texts firstExplicitConstructor_def construct_def
      resolveParameter_def js_in_def object_prototype_def has_def new_container_def dangling_def
      get_body_def resolveIdentifier_def)

section \<open>Texts without a signature\<close>

text \<open>
  Claim C9. The extractor is a total function: it has no way to raise. When none of
  the five patterns matches the text, it returns no parameter names, and invoking
  a function with that text, or constructing a class whose parameters are read from
  that text, calls the user's code with no arguments and without a look at the
  container.
\<close>

theorem unparseable_text:
  assumes "rx_search captureGroups True text = None"
    and "source f = text" and "firstExplicitConstructor c = text"
  shows "extractParameterNames text = [] \<and>
    invoke g (Fn f) p None s = Some (call f [] s) \<and>
    construct g c p s = Some (call c [] s)"
proof -
  from assms(1) have "extractParameterNames text = []"
    by (simp add: extractParameterNames_def)
  with assms(2,3) show ?thesis
    by (simp add: invoke_def construct_def)
qed

definition opaque :: "unit callable" where
  "opaque = \<lparr>fid = 7, source = '''', ancestors = [], run = (\<lambda>args w. (Inr (Str ''a''), w))\<rparr>"

lemma empty_text:
  "rx_search captureGroups True '''' = None"
  "hasExplicitConstructor '''' = False"
  by code_simp+

theorem unparseable_text_witness:
  "extractParameterNames '''' = [] \<and>
   invoke (get 0) (Fn opaque) Map.empty None (new_container ()) =
     Some (call opaque [] (new_container ())) \<and>
   construct (get 0) opaque Map.empty (new_container ()) =
     Some (call opaque [] (new_container ()))"
proof -
  have 2: "source opaque = ''''"
    by (simp add: opaque_def)
  have 3: "firstExplicitConstructor opaque = ''''"
    by (simp add: opaque_def firstExplicitConstructor_def empty_text)
  show ?thesis
    by (rule unparseable_text [OF empty_text(1) 2 3])
qed

section \<open>User code that calls the container\<close>

text \<open>
  A function or constructor that was handed the container can call it while it runs:
  \<^verbatim>\<open>func.apply\<close> and \<^verbatim>\<open>Reflect.construct\<close> run arbitrary code. Such code is a
  tree of interactions: it ends with a value or an exception and the new state of the
  user's world, or it asks \<^verbatim>\<open>has(identifier)\<close> and goes on with the answer, or it
  makes one of the other public calls and goes on with what that call returned or threw
  and with the world as the call left it. The behaviour of every function object is
  given by a \<open>code\<close>: what the function does with its arguments in a world.
\<close>

datatype 'w prog =
    Done "error + val" 'w
  | Ask string "bool \<Rightarrow> 'w prog"
  | Call "'w op" "error + val \<Rightarrow> 'w \<Rightarrow> 'w prog"

type_synonym 'w code = "'w callable \<Rightarrow> val list \<Rightarrow> 'w \<Rightarrow> 'w prog"

type_synonym 'w handler = "'w op \<Rightarrow> 'w container \<Rightarrow> (val, 'w) outcome"

text \<open>Code that does not call the container is the \<open>run\<close> of the earlier sections.\<close>

definition plain_code :: "'w code" where
  "plain_code f args w = Done (fst (run f args w)) (snd (run f args w))"

text \<open>
  Running user code, with \<open>h\<close> the container as the code sees it. A public call that
  does not return leaves the code without a result.
\<close>

primrec run_prog :: "'w prog \<Rightarrow> 'w handler \<Rightarrow> 'w container \<Rightarrow> (val, 'w) outcome" where
  "run_prog (Done r w) = (\<lambda>h s. Some (r, s\<lparr>world := w\<rparr>))"
| "run_prog (Ask i k) = (\<lambda>h s. run_prog (k (has s i)) h s)"
| "run_prog (Call x k) =
     (\<lambda>h s. case h x s of
        None \<Rightarrow> None
      | Some (r, s') \<Rightarrow> run_prog (k r (world s')) h s')"

text \<open>
  \<^verbatim>\<open>func.apply(func, args)\<close>, \<^verbatim>\<open>construct\<close>, \<^verbatim>\<open>invoke\<close> and \<^verbatim>\<open>get\<close> once more,
  word for word as before, except that the user's code is run with the container at
  hand.
\<close>

definition call_re ::
  "'w code \<Rightarrow> 'w handler \<Rightarrow> 'w callable \<Rightarrow> val list \<Rightarrow> 'w container \<Rightarrow> (val, 'w) outcome" where
  "call_re code h f args s = run_prog (code f args (world s)) h (s\<lparr>calls := calls s @ [fid f]\<rparr>)"

definition construct_re ::
  "'w code \<Rightarrow> 'w getter \<Rightarrow> 'w handler \<Rightarrow> 'w callable \<Rightarrow> params \<Rightarrow> 'w container \<Rightarrow>
   (val, 'w) outcome" where
  "construct_re code g h constructor p s =
     (case resolveParameters g (extractParameterNames (firstExplicitConstructor constructor)) p s of
        None \<Rightarrow> None
      | Some (Inl e, s') \<Rightarrow> Some (Inl e, s')
      | Some (Inr args, s') \<Rightarrow> call_re code h constructor args s')"

definition invoke_re ::
  "'w code \<Rightarrow> 'w getter \<Rightarrow> 'w handler \<Rightarrow> 'w func \<Rightarrow> params \<Rightarrow> 'w func option \<Rightarrow>
   'w container \<Rightarrow> (val, 'w) outcome" where
  "invoke_re code g h func p signature s =
     (case resolveParameters g
             (extractParameterNames (toString (case signature of None \<Rightarrow> func | Some f \<Rightarrow> f))) p s of
        None \<Rightarrow> None
      | Some (Inl e, s') \<Rightarrow> Some (Inl e, s')
      | Some (Inr args, s') \<Rightarrow>
          (case func of
             Fn f \<Rightarrow> call_re code h f args s'
           | Arrow constructor \<Rightarrow> construct_re code g h constructor Map.empty s'))"

definition get_body_re ::
  "'w code \<Rightarrow> 'w getter \<Rightarrow> 'w handler \<Rightarrow> string \<Rightarrow> 'w container \<Rightarrow> (val, 'w) outcome" where
  "get_body_re code g h identifier s =
     (if \<not> has s identifier then Some (Inl (UnknownIdentifier identifier), s)
      else
        (case instances s (resolveIdentifier s identifier) of
           Some v \<Rightarrow> Some (Inr v, s)
         | None \<Rightarrow>
             (case bindings s (resolveIdentifier s identifier) of
                None \<Rightarrow> Some (Inl TypeError, s)
              | Some b \<Rightarrow>
                  (case invoke_re code g h (factory b) Map.empty None s of
                     None \<Rightarrow> None
                   | Some (Inl e, s') \<Rightarrow> Some (Inl e, s')
                   | Some (Inr v, s') \<Rightarrow>
                       Some (Inr v,
                         if singleton b
                         then createSingletonFromBinding (resolveIdentifier s identifier) v s'
                         else s')))))"

text \<open>
  A public call, by the program or by user code: \<open>g\<close> is the \<^verbatim>\<open>get\<close> of the container
  and \<open>h\<close> the container as the code that the call runs sees it. A call without a
  result returns \<^verbatim>\<open>undefined\<close>.
\<close>

fun public_call ::
  "'w code \<Rightarrow> 'w getter \<Rightarrow> 'w handler \<Rightarrow> 'w op \<Rightarrow> 'w container \<Rightarrow> (val, 'w) outcome" where
  "public_call code g h (BindInstance i v) s = Some (Inr Undefined, bindInstance i v s)"
| "public_call code g h (BindConstructor i c sing) s = Some (Inr Undefined, bindConstructor i c sing s)"
| "public_call code g h (BindFactory i f sing) s = Some (Inr Undefined, bindFactory i f sing s)"
| "public_call code g h (MakeSingleton i) s =
     (case fst (makeSingleton i s) of
        Inl e \<Rightarrow> Some (Inl e, snd (makeSingleton i s))
      | Inr u \<Rightarrow> Some (Inr Undefined, snd (makeSingleton i s)))"
| "public_call code g h (Alias i a) s =
     (case alias_fn i a s of None \<Rightarrow> None | Some s' \<Rightarrow> Some (Inr Undefined, s'))"
| "public_call code g h (Get i) s = g i s"
| "public_call code g h (Construct c p) s = construct_re code g h c p s"
| "public_call code g h (Invoke f p sig) s = invoke_re code g h (Fn f) p (map_option Fn sig) s"

text \<open>
  The depth bound now counts the calls of the container inside calls of the container,
  by its own code or by user code: \<open>below code n\<close> is the \<^verbatim>\<open>get\<close> and the container
  that the work inside a call of depth \<open>n\<close> can use.
\<close>

primrec below :: "'w code \<Rightarrow> nat \<Rightarrow> 'w getter \<times> 'w handler" where
  "below code 0 = (\<lambda>i s. None, \<lambda>x s. None)"
| "below code (Suc n) =
     (get_body_re code (fst (below code n)) (snd (below code n)),
      public_call code (fst (below code n)) (snd (below code n)))"

definition get_re :: "'w code \<Rightarrow> nat \<Rightarrow> 'w getter" where
  "get_re code n = fst (below code (Suc n))"

definition exec_re :: "'w code \<Rightarrow> nat \<Rightarrow> 'w op \<Rightarrow> 'w container \<Rightarrow> 'w container option" where
  "exec_re code n x s = after_call (public_call code (get_re code n) (snd (below code (Suc n))) x s)"

fun perform_re :: "'w code \<Rightarrow> nat \<Rightarrow> 'w op list \<Rightarrow> 'w container \<Rightarrow> 'w container option" where
  "perform_re code n [] s = Some s"
| "perform_re code n (x # xs) s =
     (case exec_re code n x s of None \<Rightarrow> None | Some s' \<Rightarrow> perform_re code n xs s')"

text \<open>
  \<open>never P prog\<close>: the code makes no public call that \<open>P\<close> describes, whatever the
  container answers. \<open>obeys P code\<close>: no function object ever does.
\<close>

primrec never :: "('w op \<Rightarrow> bool) \<Rightarrow> 'w prog \<Rightarrow> bool" where
  "never P (Done r w) = True"
| "never P (Ask i k) = (\<forall>b. never P (k b))"
| "never P (Call x k) = (\<not> P x \<and> (\<forall>r w. never P (k r w)))"

definition obeys :: "('w op \<Rightarrow> bool) \<Rightarrow> 'w code \<Rightarrow> bool" where
  "obeys P code = (\<forall>f args w. never P (code f args w))"

text \<open>For code that does not call the container, nothing has changed.\<close>

lemma never_plain_code: "never P (plain_code f args w)"
  by (simp add: plain_code_def)


lemma call_re_plain_code: "call_re plain_code h f args s = Some (call f args s)"
  by (simp add: call_re_def plain_code_def call_def)

lemma construct_re_plain_code: "construct_re plain_code g h = construct g"
  unfolding construct_re_def construct_def call_re_plain_code by (rule refl)

lemma invoke_re_plain_code: "invoke_re plain_code g h = invoke g"
  unfolding invoke_re_def invoke_def call_re_plain_code construct_re_plain_code by (rule refl)

lemma get_body_re_plain_code: "get_body_re plain_code g h = get_body g"
  unfolding get_body_re_def get_body_def invoke_re_plain_code by (rule refl)

lemma get_re_plain_code: "get_re plain_code n = get n"
  by (induction n) (simp_all add: get_re_def get_body_re_plain_code)

section \<open>What calls can change when user code takes part\<close>

text \<open>
  A property \<open>Q\<close> of the container is stable when the public calls that \<open>P\<close> does not
  describe keep it, and storing the value of a singleton keeps it for a key that had no
  instance when the \<^verbatim>\<open>get\<close> began. A stable property then survives every call, at
  every depth, as long as neither the program nor the user's code makes a call that
  \<open>P\<close> describes.
\<close>

definition stable :: "('w op \<Rightarrow> bool) \<Rightarrow> ('w container \<Rightarrow> bool) \<Rightarrow> bool" where
  "stable P Q =
     ((\<forall>s w. Q s \<longrightarrow> Q (s\<lparr>world := w\<rparr>)) \<and>
      (\<forall>s c. Q s \<longrightarrow> Q (s\<lparr>calls := c\<rparr>)) \<and>
      (\<forall>s k v. Q s \<longrightarrow> \<not> P (BindInstance k v) \<longrightarrow> Q (bindInstance k v s)) \<and>
      (\<forall>s k c b. Q s \<longrightarrow> \<not> P (BindConstructor k c b) \<longrightarrow> Q (bindConstructor k c b s)) \<and>
      (\<forall>s k f b. Q s \<longrightarrow> \<not> P (BindFactory k f b) \<longrightarrow> Q (bindFactory k f b s)) \<and>
      (\<forall>s k. Q s \<longrightarrow> \<not> P (MakeSingleton k) \<longrightarrow> Q (snd (makeSingleton k s))) \<and>
      (\<forall>s k a s'. Q s \<longrightarrow> \<not> P (Alias k a) \<longrightarrow> alias_fn k a s = Some s' \<longrightarrow> Q s') \<and>
      (\<forall>s r t v. Q s \<longrightarrow> instances s r = None \<longrightarrow> Q t \<longrightarrow> Q (createSingletonFromBinding r v t)))"

definition keeps :: "('w container \<Rightarrow> bool) \<Rightarrow> 'w getter \<Rightarrow> bool" where
  "keeps Q g = (\<forall>i s r s'. g i s = Some (r, s') \<longrightarrow> Q s \<longrightarrow> Q s')"

definition serves :: "('w op \<Rightarrow> bool) \<Rightarrow> ('w container \<Rightarrow> bool) \<Rightarrow> 'w handler \<Rightarrow> bool" where
  "serves P Q h = (\<forall>x s r s'. h x s = Some (r, s') \<longrightarrow> \<not> P x \<longrightarrow> Q s \<longrightarrow> Q s')"

lemma run_prog_keeps:
  assumes "stable P Q" and "serves P Q h"
  shows "never P prog \<Longrightarrow> run_prog prog h s = Some (r, s') \<Longrightarrow> Q s \<Longrightarrow> Q s'"
proof (induction prog arbitrary: s)
  case (Done r0 w)
  with assms(1) show ?case by (auto simp: stable_def)
next
  case (Ask i k)
  from Ask.prems show ?case
    by (auto intro: Ask.IH [OF rangeI])
next
  case (Call x k)
  from Call.prems(2) obtain r1 s1 where a: "h x s = Some (r1, s1)"
    and b: "run_prog (k r1 (world s1)) h s1 = Some (r, s')"
    by (cases "h x s") auto
  from Call.prems(1) have nx: "\<not> P x" and nk: "never P (k r1 (world s1))"
    by simp_all
  from assms(2) a nx Call.prems(3) have "Q s1"
    unfolding serves_def by blast
  with b nk show ?case
    by (auto intro: Call.IH [OF rangeI rangeI])
qed

lemma call_re_keeps:
  assumes "stable P Q" and "serves P Q h" and "obeys P code"
    and "call_re code h f args s = Some (r, s')" and "Q s"
  shows "Q s'"
proof -
  from assms(3) have n: "never P (code f args (world s))"
    by (simp add: obeys_def)
  from assms(1,5) have q: "Q (s\<lparr>calls := calls s @ [fid f]\<rparr>)"
    by (simp add: stable_def)
  from assms(4) have e: "run_prog (code f args (world s)) h (s\<lparr>calls := calls s @ [fid f]\<rparr>) =
      Some (r, s')"
    by (simp add: call_re_def)
  show ?thesis
    by (rule run_prog_keeps [OF assms(1,2) n e q])
qed

lemma resolveParameter_keeps:
  "keeps Q g \<Longrightarrow> resolveParameter g name p s = Some (r, s') \<Longrightarrow> Q s \<Longrightarrow> Q s'"
  by (auto simp: resolveParameter_def keeps_def split: if_splits)

lemma resolveParameters_keeps:
  "keeps Q g \<Longrightarrow> resolveParameters g names p s = Some (r, s') \<Longrightarrow> Q s \<Longrightarrow> Q s'"
proof (induction names arbitrary: s r s')
  case Nil
  then show ?case by simp
next
  case (Cons name names)
  from Cons.prems(2) obtain r1 s1 where a: "resolveParameter g name p s = Some (r1, s1)"
    by (cases "resolveParameter g name p s") auto
  have q1: "Q s1"
    by (rule resolveParameter_keeps [OF Cons.prems(1) a Cons.prems(3)])
  show ?case
  proof (cases r1)
    case (Inl e)
    with Cons.prems(2) a have "s' = s1" by simp
    with q1 show ?thesis by simp
  next
    case (Inr v)
    with Cons.prems(2) a obtain r2 s2 where b: "resolveParameters g names p s1 = Some (r2, s2)"
      by (cases "resolveParameters g names p s1") auto
    have q2: "Q s2"
      by (rule Cons.IH [OF Cons.prems(1) b q1])
    from Cons.prems(2) a b Inr have "s' = s2"
      by (cases r2) auto
    with q2 show ?thesis by simp
  qed
qed

lemma construct_re_keeps:
  assumes "stable P Q" and "keeps Q g" and "serves P Q h" and "obeys P code"
    and "construct_re code g h c p s = Some (r, s')" and "Q s"
  shows "Q s'"
proof -
  let ?names = "extractParameterNames (firstExplicitConstructor c)"
  from assms(5) obtain r1 s1 where a: "resolveParameters g ?names p s = Some (r1, s1)"
    unfolding construct_re_def by (cases "resolveParameters g ?names p s") auto
  have q1: "Q s1"
    by (rule resolveParameters_keeps [OF assms(2) a assms(6)])
  show ?thesis
  proof (cases r1)
    case (Inl e)
    with assms(5) a have "s' = s1" by (simp add: construct_re_def)
    with q1 show ?thesis by simp
  next
    case (Inr args)
    with assms(5) a have "call_re code h c args s1 = Some (r, s')"
      by (simp add: construct_re_def)
    then show ?thesis
      using q1 by (rule call_re_keeps [OF assms(1,3,4)])
  qed
qed

lemma invoke_re_keeps:
  assumes "stable P Q" and "keeps Q g" and "serves P Q h" and "obeys P code"
    and "invoke_re code g h f p sig s = Some (r, s')" and "Q s"
  shows "Q s'"
proof -
  let ?names = "extractParameterNames (toString (case sig of None \<Rightarrow> f | Some f' \<Rightarrow> f'))"
  from assms(5) obtain r1 s1 where a: "resolveParameters g ?names p s = Some (r1, s1)"
    unfolding invoke_re_def by (cases "resolveParameters g ?names p s") auto
  have q1: "Q s1"
    by (rule resolveParameters_keeps [OF assms(2) a assms(6)])
  show ?thesis
  proof (cases r1)
    case (Inl e)
    with assms(5) a have "s' = s1" by (simp add: invoke_re_def)
    with q1 show ?thesis by simp
  next
    case (Inr args)
    show ?thesis
    proof (cases f)
      case (Fn u)
      from Inr assms(5) a have "call_re code h u args s1 = Some (r, s')"
        unfolding invoke_re_def Fn by simp
      then show ?thesis
        using q1 by (rule call_re_keeps [OF assms(1,3,4)])
    next
      case (Arrow c)
      from Inr assms(5) a have "construct_re code g h c Map.empty s1 = Some (r, s')"
        unfolding invoke_re_def Arrow by simp
      then show ?thesis
        using q1 by (rule construct_re_keeps [OF assms(1,2,3,4)])
    qed
  qed
qed

lemma get_body_re_keeps:
  assumes "stable P Q" and "keeps Q g" and "serves P Q h" and "obeys P code"
    and "get_body_re code g h i s = Some (r, s')" and "Q s"
  shows "Q s'"
proof (cases "has s i \<and> instances s (resolveIdentifier s i) = None \<and>
    bindings s (resolveIdentifier s i) \<noteq> None")
  case False
  with assms(5) have "s' = s"
    by (auto simp: get_body_re_def split: option.splits if_splits)
  with assms(6) show ?thesis by simp
next
  case True
  then obtain b where b: "bindings s (resolveIdentifier s i) = Some b" by auto
  from True b assms(5) obtain r1 s1 where
    a: "invoke_re code g h (factory b) Map.empty None s = Some (r1, s1)"
    by (cases "invoke_re code g h (factory b) Map.empty None s") (auto simp: get_body_re_def)
  have q1: "Q s1"
    by (rule invoke_re_keeps [OF assms(1,2,3,4) a assms(6)])
  show ?thesis
  proof (cases r1)
    case (Inl e)
    with True b a assms(5) have "s' = s1" by (simp add: get_body_re_def)
    with q1 show ?thesis by simp
  next
    case (Inr v)
    with True b a assms(5) have
      s': "s' = (if singleton b then createSingletonFromBinding (resolveIdentifier s i) v s1 else s1)"
      by (simp add: get_body_re_def)
    from assms(1,6) True q1 have "Q (createSingletonFromBinding (resolveIdentifier s i) v s1)"
      unfolding stable_def by blast
    with s' q1 show ?thesis by simp
  qed
qed

lemma public_call_serves:
  assumes "stable P Q" and "keeps Q g" and "serves P Q h" and "obeys P code"
    and "public_call code g h x s = Some (r, s')" and "\<not> P x" and "Q s"
  shows "Q s'"
proof (cases x)
  case (BindInstance k v)
  with assms(1,5,6,7) show ?thesis unfolding stable_def by auto
next
  case (BindConstructor k c sing)
  with assms(1,5,6,7) show ?thesis unfolding stable_def by auto
next
  case (BindFactory k f sing)
  with assms(1,5,6,7) show ?thesis unfolding stable_def by auto
next
  case (MakeSingleton k)
  with assms(5) have "s' = snd (makeSingleton k s)"
    by (auto split: sum.splits)
  with assms(1,6,7) MakeSingleton show ?thesis unfolding stable_def by auto
next
  case (Alias k a)
  with assms(5) have "alias_fn k a s = Some s'"
    by (auto split: option.splits)
  with assms(1,6,7) Alias show ?thesis unfolding stable_def by blast
next
  case (Get k)
  with assms(2,5,7) show ?thesis unfolding keeps_def by auto
next
  case (Construct c p)
  with assms(5) have "construct_re code g h c p s = Some (r, s')" by simp
  then show ?thesis
    using assms(7) by (rule construct_re_keeps [OF assms(1,2,3,4)])
next
  case (Invoke f p sig)
  with assms(5) have "invoke_re code g h (Fn f) p (map_option Fn sig) s = Some (r, s')" by simp
  then show ?thesis
    using assms(7) by (rule invoke_re_keeps [OF assms(1,2,3,4)])
qed

lemma below_keeps:
  assumes "stable P Q" and "obeys P code"
  shows "keeps Q (fst (below code n)) \<and> serves P Q (snd (below code n))"
proof (induction n)
  case 0
  show ?case by (simp add: keeps_def serves_def)
next
  case (Suc n)
  then have k: "keeps Q (fst (below code n))" and h: "serves P Q (snd (below code n))"
    by simp_all
  have "keeps Q (get_body_re code (fst (below code n)) (snd (below code n)))"
    unfolding keeps_def using get_body_re_keeps [OF assms(1) k h assms(2)] by blast
  moreover have "serves P Q (public_call code (fst (below code n)) (snd (below code n)))"
    unfolding serves_def using public_call_serves [OF assms(1) k h assms(2)] by blast
  ultimately show ?case by simp
qed

lemma get_re_keeps:
  assumes "stable P Q" and "obeys P code" and "get_re code n i s = Some (r, s')" and "Q s"
  shows "Q s'"
  using below_keeps [OF assms(1,2), of "Suc n"] assms(3,4)
  unfolding get_re_def keeps_def by blast

lemma exec_re_keeps:
  assumes "stable P Q" and "obeys P code" and "exec_re code n x s = Some s'"
    and "\<not> P x" and "Q s"
  shows "Q s'"
proof -
  from assms(3) obtain r where
    a: "public_call code (get_re code n) (snd (below code (Suc n))) x s = Some (r, s')"
    unfolding exec_re_def by (auto dest: after_call_Some)
  have k: "keeps Q (get_re code n)" and h: "serves P Q (snd (below code (Suc n)))"
    using below_keeps [OF assms(1,2), of "Suc n"] by (simp_all add: get_re_def)
  show ?thesis
    by (rule public_call_serves [OF assms(1) k h assms(2) a assms(4,5)])
qed

lemma perform_re_keeps:
  assumes "stable P Q" and "obeys P code"
  shows "perform_re code n xs s = Some s' \<Longrightarrow> \<forall>x \<in> set xs. \<not> P x \<Longrightarrow> Q s \<Longrightarrow> Q s'"
proof (induction xs arbitrary: s)
  case Nil
  then show ?case by simp
next
  case (Cons x xs)
  from Cons.prems(1) obtain t where t: "exec_re code n x s = Some t"
    and u: "perform_re code n xs t = Some s'"
    by (auto split: option.splits)
  from Cons.prems(2) have r: "\<not> P x" and rs: "\<forall>x \<in> set xs. \<not> P x"
    by simp_all
  have "Q t"
    by (rule exec_re_keeps [OF assms t r Cons.prems(3)])
  then show ?case
    by (rule Cons.IH [OF u rs])
qed

text \<open>
  The calls after which \<^verbatim>\<open>get(i)\<close> can answer something else than the instance of
  \<open>i\<close>, and the property that \<open>i\<close> has the instance \<open>v\<close> and is no alias.
\<close>

fun rebinds :: "string \<Rightarrow> 'w op \<Rightarrow> bool" where
  "rebinds i (BindInstance k v) = (k = i)"
| "rebinds i (Alias k a) = (a = i)"
| "rebinds i x = False"

definition holds :: "string \<Rightarrow> val \<Rightarrow> 'w container \<Rightarrow> bool" where
  "holds i v s = (aliases s i = None \<and> instances s i = Some v)"

lemma stable_holds: "stable (rebinds i) (holds i v)"
  unfolding stable_def holds_def
  by (auto simp: bindInstance_def bindConstructor_def bindFactory_def makeSingleton_def
      alias_fn_def createSingletonFromBinding_def split: option.splits)

lemma stable_no_alias: "stable (rebinds i) (\<lambda>s. aliases s i = None)"
  unfolding stable_def
  by (auto simp: bindInstance_def bindConstructor_def bindFactory_def makeSingleton_def
      alias_fn_def createSingletonFromBinding_def split: option.splits)

lemma get_re_holds: "holds i v s \<Longrightarrow> get_re code m i s = Some (Inr v, s)"
  by (simp add: get_re_def holds_def get_body_re_def has_def resolveIdentifier_def)

lemma rebinds_registers: "rebinds i x \<Longrightarrow> registers i x"
  by (cases x) auto

lemma never_mono:
  assumes "\<And>x. P' x \<Longrightarrow> P x"
  shows "never P prog \<Longrightarrow> never P' prog"
proof (induction prog)
  case (Done r w)
  show ?case by simp
next
  case (Ask i k)
  then show ?case by (auto intro: Ask.IH [OF rangeI])
next
  case (Call x k)
  then show ?case using assms by (auto intro: Call.IH [OF rangeI rangeI])
qed

lemma obeys_rebinds: "obeys (registers i) code \<Longrightarrow> obeys (rebinds i) code"
  unfolding obeys_def using never_mono [of "rebinds i" "registers i"] rebinds_registers
  by blast











subsection \<open>Examples\<close>



lemmas re_simps =
  get_re_def get_body_re_def invoke_re_def construct_re_def call_re_def exec_re_def
  plain_code_def container_simps

definition recorder :: "nat callable" where
  "recorder =
     \<lparr>fid = 11, source = ''() => record()'', ancestors = [],
      run = (\<lambda>args w. (Inr (Num (int w)), Suc w))\<rparr>"

definition recording :: "nat code" where
  "recording f args w =
     (if fid f = 11
      then Call (BindInstance ''seen'' (Num 1)) (\<lambda>r w'. Done (Inr (Num (int w'))) (Suc w'))
      else plain_code f args w)"

lemma names_recorder: "extractParameterNames ''() => record()'' = ['''']"
  by code_simp











section \<open>Bound instances\<close>

text \<open>
  Claim C4, amended. When the program calls \<^verbatim>\<open>bindInstance(i, v)\<close> while \<open>i\<close> is not
  an alias, then after any sequence of public calls in which neither the program nor
  the code of any user function or constructor calls \<^verbatim>\<open>bindInstance(i, _)\<close> or
  \<^verbatim>\<open>alias(_, i)\<close>, \<^verbatim>\<open>get(i)\<close> returns \<open>v\<close> itself at every depth bound and
  changes nothing, however often it is called.
\<close>

theorem bound_instance:
  assumes "obeys (rebinds i) code"
    and "aliases s i = None"
    and "perform_re code n xs (bindInstance i v s) = Some s'"
    and "\<forall>x \<in> set xs. \<not> rebinds i x"
  shows "get_re code m i s' = Some (Inr v, s')"
proof -
  from assms(2) have "holds i v (bindInstance i v s)"
    by (simp add: holds_def bindInstance_def)
  with assms(3,4) have "holds i v s'"
    by (rule perform_re_keeps [OF stable_holds assms(1)])
  then show ?thesis
    by (rule get_re_holds)
qed

text \<open>
  As the claim states it, C4 fails when \<open>i\<close> is already an alias:
  \<^verbatim>\<open>alias("j", "i")\<close>, then \<^verbatim>\<open>bindInstance("i", "v")\<close>, and \<^verbatim>\<open>get("i")\<close> looks
  under \<open>j\<close> and throws. It also fails when \<^verbatim>\<open>bindInstance("i", "v")\<close> is called
  by the singleton factory of \<open>i\<close> itself: when the factory has returned \<open>w\<close>, the
  \<^verbatim>\<open>get\<close> that ran it stores \<open>w\<close> over \<open>v\<close>.
\<close>

definition shadowed :: "unit container" where
  "shadowed =
     \<lparr>bindings = Map.empty, instances = [''i'' \<mapsto> Str ''v''], aliases = [''i'' \<mapsto> ''j''],
      world = (), calls = []\<rparr>"

definition rebinder :: "nat callable" where
  "rebinder =
     \<lparr>fid = 12, source = ''() => rebind()'', ancestors = [],
      run = (\<lambda>args w. (Inr (Str ''w''), w))\<rparr>"

definition rebinding :: "nat code" where
  "rebinding f args w =
     (if fid f = 12
      then Call (BindInstance ''i'' (Str ''v'')) (\<lambda>r w'. Done (Inr (Str ''w'')) w')
      else plain_code f args w)"

lemma names_rebinder: "extractParameterNames ''() => rebind()'' = ['''']"
  by code_simp

definition rebound :: "val \<Rightarrow> nat container" where
  "rebound v =
     \<lparr>bindings = Map.empty, instances = [''i'' \<mapsto> v], aliases = Map.empty,
      world = 0, calls = [12]\<rparr>"

theorem bound_instance_counterexample:
  "perform_re plain_code 0 [Alias ''j'' ''i'', BindInstance ''i'' (Str ''v'')] (new_container ()) =
     Some shadowed \<and>
   get_re plain_code 0 ''i'' shadowed = Some (Inl TypeError, shadowed) \<and>
   call_re rebinding (snd (below rebinding (Suc 0))) rebinder [Undefined]
     (bindFactory ''i'' rebinder True (new_container 0)) =
     Some (Inr (Str ''w''),
       (rebound (Str ''v''))\<lparr>bindings := [''i'' \<mapsto> \<lparr>factory = Fn rebinder, singleton = True\<rparr>]\<rparr>) \<and>
   get_re rebinding (Suc 0) ''i'' (bindFactory ''i'' rebinder True (new_container 0)) =
     Some (Inr (Str ''w''), rebound (Str ''w'')) \<and>
   get_re rebinding (Suc 0) ''i'' (rebound (Str ''w'')) = Some (Inr (Str ''w''), rebound (Str ''w''))"
  by (simp add: get_re_plain_code shadowed_def re_simps rebound_def rebinder_def rebinding_def
      names_rebinder)

definition kept_re :: "nat container" where
  "kept_re =
     \<lparr>bindings = [''f'' \<mapsto> \<lparr>factory = Fn recorder, singleton = False\<rparr>],
      instances = [''i'' \<mapsto> Str ''v'', ''seen'' \<mapsto> Num 1],
      aliases = [''a'' \<mapsto> ''i''], world = 1, calls = [11]\<rparr>"

theorem bound_instance_witness:
  "get_re recording 2 ''i'' kept_re = Some (Inr (Str ''v''), kept_re)"
proof -
  have o: "obeys (rebinds ''i'') recording"
    by (simp add: obeys_def recording_def never_plain_code)
  have a: "aliases (new_container (0::nat)) ''i'' = None"
    by (simp add: new_container_def)
  have p: "perform_re recording (Suc 0)
      [Get ''i'', BindFactory ''f'' recorder False, Get ''f'', Alias ''i'' ''a'', Get ''a'']
      (bindInstance ''i'' (Str ''v'') (new_container 0)) = Some kept_re"
    by (simp add: re_simps kept_re_def recorder_def recording_def names_recorder)
  have r: "\<forall>x \<in> set [Get ''i'', BindFactory ''f'' recorder False, Get ''f'', Alias ''i'' ''a'',
      Get ''a'' :: nat op]. \<not> rebinds ''i'' x"
    by simp
  show ?thesis
    by (rule bound_instance [OF o a p r])
qed

section \<open>Singleton bindings\<close>















end
